theory Spec2Isabelle
  imports Complex_Main
begin

section \<open>The environment of the lock manager\<close>

text \<open>
  The lock manager of \<^verbatim>\<open>redlock/__init__.py\<close> talks to a list of Redis servers, reads
  the wall clock, draws random characters and sleeps. Each of these is made explicit:
  a server is a key-value store together with the faults its next requests will meet and
  the list of commands that were sent to it; the clock and the random source are streams
  read through a counter; a sleep is recorded.

  Time-to-live values and clock readings are whole milliseconds (\<open>int\<close>); the products
  with the class constants \<^verbatim>\<open>0.01\<close> and \<^verbatim>\<open>1000\<close>, which Python computes in floating
  point, are computed exactly, in \<open>rat\<close>. Expiry of keys on the servers and requests of
  other clients are not part of the model. The argument of \<^verbatim>\<open>time.sleep\<close> is a
  duration: the manager is configured with a non-negative retry delay.
\<close>

type_synonym store = "string \<rightharpoonup> string"

datatype cond = NX | XX

text \<open>
  The two commands the manager sends: \<^verbatim>\<open>SET key value NX|XX PX ttl\<close> and the evaluation of
  \<^verbatim>\<open>unlock_script\<close> with one key and one argument.
\<close>

datatype command = SET string string cond int | EVAL_unlock string string

text \<open>
  What happens to one request: it is answered, it never reaches the server (connection
  refused), or the server executes it and the reply is lost (timeout). In the last two
  cases the client library raises.
\<close>

datatype fault = Answered | Refused | ReplyLost

record server =
  store :: store
  faults :: "fault list"
  calls :: "command list"

record world =
  peers :: "server list"
  clock :: "nat \<Rightarrow> int"
  ticks :: nat
  rand :: "nat \<Rightarrow> nat"
  drawn :: nat
  slept :: "rat list"

definition next_fault :: "server \<Rightarrow> fault" where
  "next_fault s = (case faults s of [] \<Rightarrow> Answered | f # _ \<Rightarrow> f)"

text \<open>
  The script of the class attribute \<^verbatim>\<open>unlock_script\<close>:
  \<^verbatim>\<open>if redis.call("get",KEYS[1]) == ARGV[1] then return redis.call("del",KEYS[1]) else return 0 end\<close>
\<close>

definition unlock_script :: "store \<Rightarrow> string \<Rightarrow> string \<Rightarrow> int \<times> store" where
  "unlock_script st k arg =
     (if st k = Some arg then (1, st(k := None)) else (0, st))"

text \<open>\<^verbatim>\<open>server.set(key, value, nx=..., px=ttl)\<close>: \<open>Inl ()\<close> is any exception of the client.\<close>

definition server_set ::
  "server \<Rightarrow> string \<Rightarrow> string \<Rightarrow> cond \<Rightarrow> int \<Rightarrow> (unit + bool) \<times> server" where
  "server_set s k v c px =
     (let s0 = s\<lparr>faults := tl (faults s), calls := calls s @ [SET k v c px]\<rparr>;
          ok = (case c of NX \<Rightarrow> store s k = None | XX \<Rightarrow> store s k \<noteq> None);
          s1 = (if ok then s0\<lparr>store := (store s)(k \<mapsto> v)\<rparr> else s0)
      in case next_fault s of
           Refused \<Rightarrow> (Inl (), s0)
         | ReplyLost \<Rightarrow> (Inl (), s1)
         | Answered \<Rightarrow> (Inr ok, s1))"

text \<open>\<^verbatim>\<open>server.eval(unlock_script, 1, key, arg)\<close>\<close>

definition server_eval :: "server \<Rightarrow> string \<Rightarrow> string \<Rightarrow> (unit + int) \<times> server" where
  "server_eval s k arg =
     (let s0 = s\<lparr>faults := tl (faults s), calls := calls s @ [EVAL_unlock k arg]\<rparr>;
          (r, st) = unlock_script (store s) k arg;
          s1 = s0\<lparr>store := st\<rparr>
      in case next_fault s of
           Refused \<Rightarrow> (Inl (), s0)
         | ReplyLost \<Rightarrow> (Inl (), s1)
         | Answered \<Rightarrow> (Inr r, s1))"

text \<open>
  A client handle is the index of its server in \<open>peers\<close>; a handle that names no server
  behaves as a server that cannot be reached.
\<close>

definition on_peer ::
  "nat \<Rightarrow> (server \<Rightarrow> (unit + 'a) \<times> server) \<Rightarrow> world \<Rightarrow> (unit + 'a) \<times> world" where
  "on_peer i f w =
     (if i < length (peers w)
      then (case f (peers w ! i) of (r, s') \<Rightarrow> (r, w\<lparr>peers := (peers w)[i := s']\<rparr>))
      else (Inl (), w))"

text \<open>\<^verbatim>\<open>int(time.time() * 1000)\<close>\<close>

definition now_ms :: "world \<Rightarrow> int \<times> world" where
  "now_ms w = (clock w (ticks w), w\<lparr>ticks := Suc (ticks w)\<rparr>)"

text \<open>\<^verbatim>\<open>time.sleep(d)\<close>\<close>

definition sleep :: "rat \<Rightarrow> world \<Rightarrow> world" where
  "sleep d w = w\<lparr>slept := slept w @ [d]\<rparr>"

text \<open>\<^verbatim>\<open>random.choice(xs)\<close> on a non-empty sequence.\<close>

definition choice :: "'a list \<Rightarrow> world \<Rightarrow> 'a \<times> world" where
  "choice xs w = (xs ! (rand w (drawn w) mod length xs), w\<lparr>drawn := Suc (drawn w)\<rparr>)"

text \<open>Python's \<^verbatim>\<open>int(x)\<close> on a number: truncation towards zero.\<close>

definition py_int :: "rat \<Rightarrow> int" where
  "py_int x = (if 0 \<le> x then \<lfloor>x\<rfloor> else \<lceil>x\<rceil>)"

section \<open>Redlock\<close>

record lock =
  validity :: int
  resource :: string
  key :: string

datatype exn = Warning string | CannotObtainLock string

datatype conn_info = Url string | Options "(string \<times> string) list"

record redlock =
  servers :: "nat list"
  quorum :: nat
  retry_count :: int
  retry_delay :: rat

definition default_retry_count :: int where
  "default_retry_count = 3"

definition default_retry_delay :: rat where
  "default_retry_delay = 2 / 10"

definition clock_drift_factor :: rat where
  "clock_drift_factor = 1 / 100"

text \<open>Python's \<^verbatim>\<open>x or d\<close> for an optional number: \<^verbatim>\<open>None\<close> and zero are false.\<close>

definition py_or :: "'a::zero option \<Rightarrow> 'a \<Rightarrow> 'a" where
  "py_or x d = (case x of None \<Rightarrow> d | Some v \<Rightarrow> if v = 0 then d else v)"

text \<open>
  The two constructors of the Redis client, \<^verbatim>\<open>StrictRedis.from_url\<close> and
  \<^verbatim>\<open>StrictRedis(**kwargs)\<close>, are parameters: each returns a handle or raises (\<open>Inl\<close> the
  message of the exception). \<open>construct\<close> is the \<^verbatim>\<open>if isinstance(...)\<close> of \<^verbatim>\<open>__init__\<close>.
\<close>

definition construct ::
  "(string \<Rightarrow> string + nat) \<Rightarrow> ((string \<times> string) list \<Rightarrow> string + nat) \<Rightarrow>
   conn_info \<Rightarrow> string + nat" where
  "construct from_url StrictRedis connection_info =
     (case connection_info of
        Url u \<Rightarrow> from_url u
      | Options kw \<Rightarrow> StrictRedis kw)"

text \<open>The loop of \<^verbatim>\<open>__init__\<close> over \<^verbatim>\<open>connection_list\<close>; \<open>acc\<close> is \<^verbatim>\<open>self.servers\<close>.\<close>

fun connect_all ::
  "(string \<Rightarrow> string + nat) \<Rightarrow> ((string \<times> string) list \<Rightarrow> string + nat) \<Rightarrow>
   conn_info list \<Rightarrow> nat list \<Rightarrow> exn + nat list" where
  "connect_all from_url StrictRedis [] acc = Inr acc"
| "connect_all from_url StrictRedis (connection_info # rest) acc =
     (case construct from_url StrictRedis connection_info of
        Inr server \<Rightarrow> connect_all from_url StrictRedis rest (acc @ [server])
      | Inl e \<Rightarrow> Inl (Warning e))"

definition init ::
  "(string \<Rightarrow> string + nat) \<Rightarrow> ((string \<times> string) list \<Rightarrow> string + nat) \<Rightarrow>
   conn_info list \<Rightarrow> int option \<Rightarrow> rat option \<Rightarrow> exn + redlock" where
  "init from_url StrictRedis connection_list rc rd =
     (case connect_all from_url StrictRedis connection_list [] of
        Inl e \<Rightarrow> Inl e
      | Inr srvs \<Rightarrow>
          (let q = length connection_list div 2 + 1
           in if length srvs < q
              then Inl (CannotObtainLock ''Failed to connect to the majority of redis servers'')
              else Inr \<lparr>servers = srvs, quorum = q,
                        retry_count = py_or rc default_retry_count,
                        retry_delay = py_or rd default_retry_delay\<rparr>))"

definition lock_instance :: "nat \<Rightarrow> string \<Rightarrow> string \<Rightarrow> int \<Rightarrow> world \<Rightarrow> bool \<times> world" where
  "lock_instance server rsrc val ttl w =
     (case on_peer server (\<lambda>s. server_set s rsrc val NX ttl) w of
        (Inr r, w') \<Rightarrow> (r, w')
      | (Inl e, w') \<Rightarrow> (False, w'))"

definition unlock_instance :: "nat \<Rightarrow> string \<Rightarrow> string \<Rightarrow> world \<Rightarrow> world" where
  "unlock_instance server rsrc val w =
     (case on_peer server (\<lambda>s. server_eval s rsrc val) w of
        (Inr r, w') \<Rightarrow> w'
      | (Inl e, w') \<Rightarrow> w')"

definition CHARACTERS :: string where
  "CHARACTERS =
     ''abcdefghijklmnopqrstuvwxyz'' @ ''ABCDEFGHIJKLMNOPQRSTUVWXYZ'' @ ''0123456789''"

fun choices :: "nat \<Rightarrow> 'a list \<Rightarrow> world \<Rightarrow> 'a list \<times> world" where
  "choices 0 xs w = ([], w)"
| "choices (Suc k) xs w =
     (case choice xs w of (c, w') \<Rightarrow>
        (case choices k xs w' of (cs, w'') \<Rightarrow> (c # cs, w'')))"

definition get_unique_id :: "world \<Rightarrow> string \<times> world" where
  "get_unique_id w = choices 22 CHARACTERS w"

text \<open>\<^verbatim>\<open>int(ttl * self.clock_drift_factor) + 2\<close>\<close>

definition drift_of :: "int \<Rightarrow> int" where
  "drift_of ttl = py_int (of_int ttl * clock_drift_factor) + 2"

text \<open>The first \<^verbatim>\<open>for\<close> loop of an attempt: \<open>n\<close> counts the servers whose set succeeded.\<close>

fun lock_servers :: "nat list \<Rightarrow> string \<Rightarrow> string \<Rightarrow> int \<Rightarrow> nat \<Rightarrow> world \<Rightarrow> nat \<times> world" where
  "lock_servers [] rsrc val ttl n w = (n, w)"
| "lock_servers (server # rest) rsrc val ttl n w =
     (case lock_instance server rsrc val ttl w of
        (ok, w') \<Rightarrow> lock_servers rest rsrc val ttl (if ok then n + 1 else n) w')"

text \<open>The second \<^verbatim>\<open>for\<close> loop, also the body of \<^verbatim>\<open>unlock\<close>.\<close>

fun unlock_servers :: "nat list \<Rightarrow> string \<Rightarrow> string \<Rightarrow> world \<Rightarrow> world" where
  "unlock_servers [] rsrc val w = w"
| "unlock_servers (server # rest) rsrc val w =
     unlock_servers rest rsrc val (unlock_instance server rsrc val w)"

text \<open>
  One attempt, from \<^verbatim>\<open>n = 0\<close> to the computation of \<^verbatim>\<open>validity\<close>: the result is
  \<open>(n, validity, world)\<close>.
\<close>

definition attempt ::
  "redlock \<Rightarrow> string \<Rightarrow> int \<Rightarrow> string \<Rightarrow> int \<Rightarrow> world \<Rightarrow> nat \<times> int \<times> world" where
  "attempt self rsrc ttl val drift w =
     (case now_ms w of (start_time, w1) \<Rightarrow>
        (case lock_servers (servers self) rsrc val ttl 0 w1 of (n, w2) \<Rightarrow>
           (case now_ms w2 of (end_time, w3) \<Rightarrow>
              (let elapsed_time = end_time - start_time;
                   vl = ttl - elapsed_time - drift
               in (n, vl, w3)))))"

text \<open>The \<^verbatim>\<open>else\<close> branch of an attempt: release on every server, then sleep.\<close>

definition give_up :: "redlock \<Rightarrow> string \<Rightarrow> string \<Rightarrow> world \<Rightarrow> world" where
  "give_up self rsrc val w =
     sleep (retry_delay self) (unlock_servers (servers self) rsrc val w)"

text \<open>The \<^verbatim>\<open>while retry < self.retry_count\<close> loop; \<open>None\<close> is the value \<^verbatim>\<open>False\<close>.\<close>

function lock_loop ::
  "redlock \<Rightarrow> string \<Rightarrow> int \<Rightarrow> string \<Rightarrow> int \<Rightarrow> int \<Rightarrow> world \<Rightarrow> lock option \<times> world" where
  "lock_loop self rsrc ttl val drift retry w =
     (if retry < retry_count self
      then (case attempt self rsrc ttl val drift w of (n, v, w') \<Rightarrow>
              if v > 0 \<and> n \<ge> quorum self
              then (Some \<lparr>validity = v, resource = rsrc, key = val\<rparr>, w')
              else lock_loop self rsrc ttl val drift (retry + 1)
                     (give_up self rsrc val w'))
      else (None, w))"
  by pat_completeness auto
termination
  by (relation "measure (\<lambda>(self, rsrc, ttl, val, drift, retry, w).
                            nat (retry_count self - retry))") auto

definition lock :: "redlock \<Rightarrow> string \<Rightarrow> int \<Rightarrow> world \<Rightarrow> lock option \<times> world" where
  "lock self rsrc ttl w =
     (case get_unique_id w of (val, w') \<Rightarrow>
        lock_loop self rsrc ttl val (drift_of ttl) 0 w')"

definition unlock :: "redlock \<Rightarrow> lock \<Rightarrow> world \<Rightarrow> world" where
  "unlock self l w = unlock_servers (servers self) (resource l) (key l) w"

section \<open>The attempts of one call of \<open>lock\<close>\<close>

text \<open>
  The world in which the attempt number \<open>k\<close> (counted from 0) of the loop starts, when the
  \<open>k\<close> attempts before it have failed: each of them was followed by \<open>give_up\<close>.
\<close>

primrec before_attempt ::
  "redlock \<Rightarrow> string \<Rightarrow> int \<Rightarrow> string \<Rightarrow> int \<Rightarrow> nat \<Rightarrow> world \<Rightarrow> world" where
  "before_attempt self rsrc ttl val drift 0 w = w"
| "before_attempt self rsrc ttl val drift (Suc k) w =
     give_up self rsrc val
       (snd (snd (attempt self rsrc ttl val drift (before_attempt self rsrc ttl val drift k w))))"

text \<open>The token that a call of \<open>lock\<close> in world \<open>w\<close> generates, and the world after that.\<close>

definition token :: "world \<Rightarrow> string" where
  "token w = fst (get_unique_id w)"

definition after_token :: "world \<Rightarrow> world" where
  "after_token w = snd (get_unique_id w)"

text \<open>
  What attempt number \<open>k\<close> of \<open>lock self rsrc ttl\<close>, called in world \<open>w\<close>, computes:
  \<open>(n, validity, world)\<close>.
\<close>

definition world_before :: "redlock \<Rightarrow> string \<Rightarrow> int \<Rightarrow> world \<Rightarrow> nat \<Rightarrow> world" where
  "world_before self rsrc ttl w k =
     before_attempt self rsrc ttl (token w) (drift_of ttl) k (after_token w)"

definition nth_attempt ::
  "redlock \<Rightarrow> string \<Rightarrow> int \<Rightarrow> world \<Rightarrow> nat \<Rightarrow> nat \<times> int \<times> world" where
  "nth_attempt self rsrc ttl w k =
     attempt self rsrc ttl (token w) (drift_of ttl) (world_before self rsrc ttl w k)"

text \<open>The success condition of the loop: \<^verbatim>\<open>validity > 0 and n >= self.quorum\<close>.\<close>

definition accepted :: "redlock \<Rightarrow> nat \<times> int \<times> world \<Rightarrow> bool" where
  "accepted self a = (case a of (n, v, w) \<Rightarrow> v > 0 \<and> n \<ge> quorum self)"

text \<open>
  Attempt \<open>k\<close> is the one on which the call returns a handle: it is within the retry
  count, every attempt before it has failed, and it meets the success condition.
\<close>

definition first_success :: "redlock \<Rightarrow> string \<Rightarrow> int \<Rightarrow> world \<Rightarrow> nat \<Rightarrow> bool" where
  "first_success self rsrc ttl w k =
     (int k < retry_count self \<and>
      (\<forall>j<k. \<not> accepted self (nth_attempt self rsrc ttl w j)) \<and>
      accepted self (nth_attempt self rsrc ttl w k))"

text \<open>What one failed attempt sends to a server that the manager holds \<open>c\<close> times.\<close>

definition round_trip :: "string \<Rightarrow> string \<Rightarrow> int \<Rightarrow> nat \<Rightarrow> command list" where
  "round_trip rsrc val ttl c =
     replicate c (SET rsrc val NX ttl) @ replicate c (EVAL_unlock rsrc val)"

text \<open>The values of the \<^verbatim>\<open>SET\<close> commands of a log, in order.\<close>

fun set_values :: "command list \<Rightarrow> string list" where
  "set_values [] = []"
| "set_values (SET k v c px # cs) = v # set_values cs"
| "set_values (EVAL_unlock k v # cs) = set_values cs"

text \<open>
  \<open>st'\<close> differs from \<open>st\<close> at most in that the key \<open>k\<close>, which held the value \<open>v\<close>, is gone.
\<close>

definition released :: "store \<Rightarrow> store \<Rightarrow> string \<Rightarrow> string \<Rightarrow> bool" where
  "released st st' k v =
     (st' = st \<or> (st k = Some v \<and> st' = st(k := None)))"

section \<open>ExpiryExtendingRedlock\<close>

text \<open>
  The renewal loops run in threads of their own, beside the thread that calls
  \<^verbatim>\<open>stop_expiry_extender\<close>. Each thread is a program counter over the statements of its
  function; the threads share the event flag and the servers, and take their steps in any
  order (a list of turns). Time is not part of the model: \<^verbatim>\<open>event.wait(timeout)\<close> records
  its timeout and may return at any later turn, and \<^verbatim>\<open>join\<close> takes no step while its
  thread is alive. The division \<^verbatim>\<open>ttl / 1000\<close> is Python 3's.
\<close>

text \<open>
  Where a thread of \<^verbatim>\<open>extend_expiry_loop\<close> stands: before the test of the \<^verbatim>\<open>while\<close>,
  in \<^verbatim>\<open>self.event.wait\<close>, before \<^verbatim>\<open>server.set\<close>, or returned.
\<close>

datatype pc = Check | Waiting | Renewing | Finished

record thread =
  th_server :: nat
  th_resource :: string
  th_val :: string
  th_ttl :: int
  th_pc :: pc

text \<open>
  Where the caller of \<^verbatim>\<open>stop_expiry_extender\<close> stands: before \<^verbatim>\<open>self.event.set()\<close>, before
  the \<^verbatim>\<open>if\<close> with its \<^verbatim>\<open>join\<close>, before \<^verbatim>\<open>self.event.clear()\<close>, or returned.
\<close>

datatype stop_pc = Set_event | Join | Clear_event | Returned

text \<open>
  An \<^verbatim>\<open>ExpiryExtendingRedlock\<close> at work: the world, \<^verbatim>\<open>self.event\<close>,
  \<^verbatim>\<open>self.expiry_extender\<close> (the index of a thread), the threads started so far, the
  timeouts of the calls of \<^verbatim>\<open>event.wait\<close> with the thread that made them, and the caller.
\<close>

record extending =
  env :: world
  event :: bool
  expiry_extender :: "nat option"
  threads :: "thread list"
  waited :: "(nat \<times> rat) list"
  caller :: stop_pc

definition set_pc :: "nat \<Rightarrow> pc \<Rightarrow> extending \<Rightarrow> extending" where
  "set_pc t p x = x\<lparr>threads := (threads x)[t := (threads x ! t)\<lparr>th_pc := p\<rparr>]\<rparr>"

text \<open>One step of thread \<open>t\<close> in \<^verbatim>\<open>extend_expiry_loop\<close>.\<close>

definition extend_expiry_loop_step :: "nat \<Rightarrow> extending \<Rightarrow> extending" where
  "extend_expiry_loop_step t x =
     (if t < length (threads x)
      then (let th = threads x ! t in
            case th_pc th of
              Check \<Rightarrow> set_pc t (if event x then Finished else Waiting) x
            | Waiting \<Rightarrow>
                set_pc t Renewing (x\<lparr>waited := waited x @ [(t, of_int (th_ttl th) / 1000 - 5)]\<rparr>)
            | Renewing \<Rightarrow>
                (case on_peer (th_server th)
                        (\<lambda>s. server_set s (th_resource th) (th_val th) XX (th_ttl th)) (env x) of
                   (Inr True, w') \<Rightarrow> set_pc t Check (x\<lparr>env := w'\<rparr>)
                 | (Inr False, w') \<Rightarrow> set_pc t Check (x\<lparr>env := w', event := True\<rparr>)
                 | (Inl e, w') \<Rightarrow> set_pc t Check (x\<lparr>env := w', event := True\<rparr>))
            | Finished \<Rightarrow> x)
      else x)"

text \<open>\<^verbatim>\<open>thread.is_alive()\<close>\<close>

definition is_alive :: "extending \<Rightarrow> nat \<Rightarrow> bool" where
  "is_alive x t = (t < length (threads x) \<and> th_pc (threads x ! t) \<noteq> Finished)"

text \<open>
  One step of the caller in \<^verbatim>\<open>stop_expiry_extender\<close>. None of its statements raises here,
  so the \<^verbatim>\<open>except: pass\<close> has nothing to catch.
\<close>

definition stop_expiry_extender_step :: "extending \<Rightarrow> extending" where
  "stop_expiry_extender_step x =
     (case caller x of
        Set_event \<Rightarrow> x\<lparr>event := True, caller := Join\<rparr>
      | Join \<Rightarrow>
          (case expiry_extender x of
             None \<Rightarrow> x\<lparr>caller := Clear_event\<rparr>
           | Some t \<Rightarrow> if is_alive x t then x else x\<lparr>caller := Clear_event\<rparr>)
      | Clear_event \<Rightarrow> x\<lparr>event := False, caller := Returned\<rparr>
      | Returned \<Rightarrow> x)"

text \<open>
  \<^verbatim>\<open>start_expiry_extender\<close>: the new thread is stored in \<^verbatim>\<open>self.expiry_extender\<close>, over
  the thread that was there, and started.
\<close>

definition start_expiry_extender ::
  "nat \<Rightarrow> string \<Rightarrow> string \<Rightarrow> int \<Rightarrow> extending \<Rightarrow> extending" where
  "start_expiry_extender server rsrc val ttl x =
     x\<lparr>expiry_extender := Some (length (threads x)),
       threads := threads x @
         [\<lparr>th_server = server, th_resource = rsrc, th_val = val, th_ttl = ttl, th_pc = Check\<rparr>]\<rparr>"

text \<open>A schedule: whose turn it is, step after step.\<close>

datatype turn = Caller | Thread nat

fun run :: "turn list \<Rightarrow> extending \<Rightarrow> extending" where
  "run [] x = x"
| "run (Caller # ts) x = run ts (stop_expiry_extender_step x)"
| "run (Thread t # ts) x = run ts (extend_expiry_loop_step t x)"

section \<open>Example worlds\<close>

text \<open>One server that refuses the first request it is sent.\<close>

definition w1 :: world where
  "w1 = \<lparr>peers = [\<lparr>store = Map.empty, faults = [Refused], calls = []\<rparr>],
          clock = (\<lambda>i. 1000 + 50 * int i), ticks = 0,
          rand = (\<lambda>i. 0), drawn = 0, slept = []\<rparr>"

definition m1 :: redlock where
  "m1 = \<lparr>servers = [0], quorum = 1, retry_count = 3, retry_delay = 2 / 10\<rparr>"




definition w2 :: world where
  "w2 = \<lparr>peers = [\<lparr>store = Map.empty, faults = [Answered, Refused], calls = []\<rparr>,
                  \<lparr>store = Map.empty, faults = [Refused, Refused], calls = []\<rparr>],
          clock = (\<lambda>i. 1000 + 50 * int i), ticks = 0,
          rand = (\<lambda>i. 0), drawn = 0, slept = []\<rparr>"


definition w3 :: world where
  "w3 = \<lparr>peers = [\<lparr>store = Map.empty, faults = [ReplyLost], calls = []\<rparr>],
          clock = (\<lambda>i. 1000 + 50 * int i), ticks = 0,
          rand = (\<lambda>i. 0), drawn = 0, slept = []\<rparr>"

text \<open>
  Three servers for a release: one holds the token, one holds the value of another client,
  one holds the token and refuses the request.
\<close>

definition m8 :: redlock where
  "m8 = \<lparr>servers = [0, 1, 2], quorum = 2, retry_count = 3, retry_delay = 2 / 10\<rparr>"

definition l8 :: lock where
  "l8 = \<lparr>validity = 9848, resource = ''res'', key = ''tok''\<rparr>"

definition w8 :: world where
  "w8 = \<lparr>peers = [\<lparr>store = [''res'' \<mapsto> ''tok''], faults = [], calls = []\<rparr>,
                  \<lparr>store = [''res'' \<mapsto> ''other''], faults = [], calls = []\<rparr>,
                  \<lparr>store = [''res'' \<mapsto> ''tok''], faults = [Refused], calls = []\<rparr>],
          clock = (\<lambda>i. 1000 + 50 * int i), ticks = 0,
          rand = (\<lambda>i. 0), drawn = 0, slept = []\<rparr>"


text \<open>
  Two servers that hold the resource for the token \<open>''tok''\<close>, as after a successful
  \<^verbatim>\<open>lock\<close> with a time-to-live of 20000, and the manager after \<^verbatim>\<open>lock\<close> has started one
  renewal thread for each of them.
\<close>

definition held :: world where
  "held = \<lparr>peers = [\<lparr>store = [''res'' \<mapsto> ''tok''], faults = [], calls = []\<rparr>,
                    \<lparr>store = [''res'' \<mapsto> ''tok''], faults = [], calls = []\<rparr>],
            clock = (\<lambda>i. 1000 + 50 * int i), ticks = 2,
            rand = (\<lambda>i. 0), drawn = 22, slept = []\<rparr>"

definition x0 :: extending where
  "x0 = start_expiry_extender 1 ''res'' ''tok'' 20000
          (start_expiry_extender 0 ''res'' ''tok'' 20000
             \<lparr>env = held, event = False, expiry_extender = None, threads = [], waited = [],
              caller = Set_event\<rparr>)"

text \<open>
  A schedule in three parts. Thread 0 leaves its wait and is about to send its renewal,
  thread 1 enters its wait, and the caller sets the event. Then thread 1 leaves its wait,
  renews, sees the event and returns; the caller's join ends and the caller clears the
  event and returns. Then thread 0 goes on.
\<close>

definition until_signal :: "turn list" where
  "until_signal = [Thread 0, Thread 0, Thread 1, Caller]"

definition until_stopped :: "turn list" where
  "until_stopped = until_signal @ [Thread 1, Thread 1, Thread 1, Caller, Caller]"

definition afterwards :: "turn list" where
  "afterwards = [Thread 0, Thread 0, Thread 0, Thread 0]"

section \<open>Construction\<close>

declare lock_loop.simps [simp del]

lemma connect_all_length:
  "connect_all from_url StrictRedis cl acc = Inr srvs \<Longrightarrow> length srvs = length acc + length cl"
  by (induction cl arbitrary: acc) (auto split: sum.splits)

lemma connect_all_Inl:
  "connect_all from_url StrictRedis cl acc = Inl e \<Longrightarrow> \<exists>m. e = Warning m"
  by (induction cl arbitrary: acc) (auto split: sum.splits)

lemma connect_all_bad:
  "\<exists>ci \<in> set cl. isl (construct from_url StrictRedis ci) \<Longrightarrow>
     \<exists>m. connect_all from_url StrictRedis cl acc = Inl (Warning m)"
  by (induction cl arbitrary: acc) (auto split: sum.splits simp: isl_def)

text \<open>
  What \<^verbatim>\<open>__init__\<close> raises: \<^verbatim>\<open>Warning\<close> as soon as one descriptor cannot be constructed,
  \<^verbatim>\<open>CannotObtainLock\<close> only for the empty list.
\<close>

lemma init_Warning:
  "\<exists>ci \<in> set connection_list. isl (construct from_url StrictRedis ci) \<Longrightarrow>
     \<exists>m. init from_url StrictRedis connection_list rc rd = Inl (Warning m)"
  using connect_all_bad [of connection_list from_url StrictRedis "[]"]
  by (auto simp: init_def)

lemma init_CannotObtainLock:
  assumes raised: "init from_url StrictRedis connection_list rc rd = Inl (CannotObtainLock m)"
  shows "connection_list = []"
proof (cases "connect_all from_url StrictRedis connection_list []")
  case (Inl e)
  then show ?thesis
    using raised connect_all_Inl [of from_url StrictRedis connection_list "[]" e]
    by (auto simp: init_def)
next
  case (Inr srvs)
  from Inr have "length srvs = length connection_list"
    using connect_all_length [of from_url StrictRedis connection_list "[]" srvs] by simp
  moreover from raised Inr have "length srvs < length connection_list div 2 + 1"
    by (simp add: init_def Let_def split: if_splits)
  ultimately have "length connection_list = 0" by arith
  then show ?thesis by simp
qed

text \<open>
  C2. For a list of \<open>N\<close> connection descriptors, the quorum of the constructed manager is
  \<open>floor(N/2) + 1\<close>, and the manager holds \<open>N\<close> servers.
\<close>

theorem quorum_majority:
  "init from_url StrictRedis connection_list rc rd = Inr self \<Longrightarrow>
     quorum self = length connection_list div 2 + 1 \<and>
     length (servers self) = length connection_list"
  by (auto simp: init_def Let_def split: sum.splits if_splits dest: connect_all_length)

theorem quorum_majority_witness:
  "init (\<lambda>u. Inr (length u)) (\<lambda>kw. Inl ''bad'') [Url ''a'', Url ''bb'', Url ''ccc''] None None
     = Inr \<lparr>servers = [1, 2, 3], quorum = 2, retry_count = 3, retry_delay = 2 / 10\<rparr> \<and>
   quorum \<lparr>servers = [1, 2, 3], quorum = 2, retry_count = 3, retry_delay = 2 / 10\<rparr>
     = length [Url ''a'', Url ''bb'', Url ''ccc''] div 2 + 1"
proof -
  have h: "init (\<lambda>u. Inr (length u)) (\<lambda>kw. Inl ''bad'') [Url ''a'', Url ''bb'', Url ''ccc''] None None
     = Inr \<lparr>servers = [1, 2, 3], quorum = 2, retry_count = 3, retry_delay = 2 / 10\<rparr>"
    by (simp add: init_def construct_def py_or_def default_retry_count_def
          default_retry_delay_def)
  show ?thesis using h quorum_majority [OF h] by simp
qed

text \<open>
  C6. The claim: construction raises \<^verbatim>\<open>CannotObtainLock\<close> exactly when fewer than a
  quorum of the descriptors can be constructed, and succeeds otherwise. The code at two
  URLs and a dictionary with a keyword that \<^verbatim>\<open>StrictRedis\<close> does not take: two of the
  three descriptors are constructible, the quorum is two, and \<^verbatim>\<open>__init__\<close> raises
  \<^verbatim>\<open>Warning\<close>.
\<close>

theorem init_one_bad_descriptor:
  "length (filter (\<lambda>ci. \<not> isl (construct
       (\<lambda>u. Inr (length u))
       (\<lambda>kw. if ''hostname'' \<in> set (map fst kw)
             then Inl ''__init__() got an unexpected keyword argument'' else Inr 0) ci))
     [Url ''redis://a'', Url ''redis://bb'', Options [(''hostname'', ''c'')]]) = 2 \<and>
   length [Url ''redis://a'', Url ''redis://bb'', Options [(''hostname'', ''c'')]] div 2 + 1 = 2 \<and>
   init (\<lambda>u. Inr (length u))
        (\<lambda>kw. if ''hostname'' \<in> set (map fst kw)
              then Inl ''__init__() got an unexpected keyword argument'' else Inr 0)
        [Url ''redis://a'', Url ''redis://bb'', Options [(''hostname'', ''c'')]] None None
     = Inl (Warning ''__init__() got an unexpected keyword argument'')"
  by (simp add: init_def construct_def)

section \<open>The effect of the operations on the world\<close>

lemma py_int_percent:
  "py_int (of_int t * clock_drift_factor) = (if 0 \<le> t then t div 100 else - ((- t) div 100))"
proof -
  have a: "\<lfloor>(of_int t :: rat) / 100\<rfloor> = t div 100"
    using floor_divide_of_int_eq [of t 100, where ?'a = rat] by simp
  have b: "\<lceil>(of_int t :: rat) / 100\<rceil> = - ((- t) div 100)"
    unfolding ceiling_def using floor_divide_of_int_eq [of "- t" 100, where ?'a = rat] by simp
  show ?thesis
    by (simp add: py_int_def clock_drift_factor_def a b)
qed

lemma drift_of_eq: "drift_of ttl = (if 0 \<le> ttl then ttl div 100 else - ((- ttl) div 100)) + 2"
  unfolding drift_of_def py_int_percent by simp


lemma on_peer_frame:
  "clock (snd (on_peer i f w)) = clock w"
  "ticks (snd (on_peer i f w)) = ticks w"
  "rand (snd (on_peer i f w)) = rand w"
  "drawn (snd (on_peer i f w)) = drawn w"
  "slept (snd (on_peer i f w)) = slept w"
  "length (peers (snd (on_peer i f w))) = length (peers w)"
  by (simp_all add: on_peer_def split: prod.splits)

lemma on_peer_nth:
  "j < length (peers w) \<Longrightarrow>
     peers (snd (on_peer i f w)) ! j = (if j = i then snd (f (peers w ! i)) else peers w ! j)"
  by (simp add: on_peer_def split: prod.splits)

lemma server_set_fields:
  "calls (snd (server_set s k v c px)) = calls s @ [SET k v c px]"
  "faults (snd (server_set s k v c px)) = tl (faults s)"
  by (simp_all add: server_set_def Let_def split: fault.splits)

lemma server_eval_fields:
  "calls (snd (server_eval s k a)) = calls s @ [EVAL_unlock k a]"
  "faults (snd (server_eval s k a)) = tl (faults s)"
  "store (snd (server_eval s k a)) =
     (if next_fault s = Refused then store s else snd (unlock_script (store s) k a))"
  by (simp_all add: server_eval_def Let_def split: fault.splits prod.splits)

lemma lock_instance_world:
  "snd (lock_instance i rsrc val ttl w) = snd (on_peer i (\<lambda>s. server_set s rsrc val NX ttl) w)"
  by (simp add: lock_instance_def split: prod.splits sum.splits)

lemma unlock_instance_world:
  "unlock_instance i rsrc val w = snd (on_peer i (\<lambda>s. server_eval s rsrc val) w)"
  by (simp add: unlock_instance_def split: prod.splits sum.splits)

lemma lock_servers_frame:
  "clock (snd (lock_servers xs rsrc val ttl n w)) = clock w \<and>
   ticks (snd (lock_servers xs rsrc val ttl n w)) = ticks w \<and>
   rand (snd (lock_servers xs rsrc val ttl n w)) = rand w \<and>
   drawn (snd (lock_servers xs rsrc val ttl n w)) = drawn w \<and>
   slept (snd (lock_servers xs rsrc val ttl n w)) = slept w \<and>
   length (peers (snd (lock_servers xs rsrc val ttl n w))) = length (peers w)"
proof (induction xs arbitrary: n w)
  case Nil
  show ?case by simp
next
  case (Cons x xs)
  obtain ok w' where lw: "lock_instance x rsrc val ttl w = (ok, w')"
    by (cases "lock_instance x rsrc val ttl w")
  then have w': "w' = snd (on_peer x (\<lambda>s. server_set s rsrc val NX ttl) w)"
    using lock_instance_world [of x rsrc val ttl w] by simp
  show ?case
    using Cons.IH [of "if ok then n + 1 else n" w'] lw
    by (simp add: w' on_peer_frame)
qed

lemma unlock_servers_frame:
  "clock (unlock_servers xs rsrc val w) = clock w \<and>
   ticks (unlock_servers xs rsrc val w) = ticks w \<and>
   rand (unlock_servers xs rsrc val w) = rand w \<and>
   drawn (unlock_servers xs rsrc val w) = drawn w \<and>
   slept (unlock_servers xs rsrc val w) = slept w \<and>
   length (peers (unlock_servers xs rsrc val w)) = length (peers w)"
proof (induction xs arbitrary: w)
  case Nil
  show ?case by simp
next
  case (Cons x xs)
  show ?case
    using Cons.IH [of "unlock_instance x rsrc val w"]
    by (simp add: unlock_instance_world on_peer_frame)
qed

lemma lock_servers_calls:
  "j < length (peers w) \<Longrightarrow>
   calls (peers (snd (lock_servers xs rsrc val ttl n w)) ! j) =
     calls (peers w ! j) @ replicate (count_list xs j) (SET rsrc val NX ttl)"
proof (induction xs arbitrary: n w)
  case Nil
  show ?case by simp
next
  case (Cons x xs)
  obtain ok w' where lw: "lock_instance x rsrc val ttl w = (ok, w')"
    by (cases "lock_instance x rsrc val ttl w")
  then have w': "w' = snd (on_peer x (\<lambda>s. server_set s rsrc val NX ttl) w)"
    using lock_instance_world [of x rsrc val ttl w] by simp
  have len: "j < length (peers w')"
    using Cons.prems by (simp add: w' on_peer_frame)
  have "calls (peers w' ! j) =
          calls (peers w ! j) @ (if j = x then [SET rsrc val NX ttl] else [])"
    using Cons.prems by (simp add: w' on_peer_nth server_set_fields)
  then show ?case
    using Cons.IH [OF len, of "if ok then n + 1 else n"] lw
    by (simp add: replicate_app_Cons_same)
qed

lemma unlock_servers_calls:
  "j < length (peers w) \<Longrightarrow>
   calls (peers (unlock_servers xs rsrc val w) ! j) =
     calls (peers w ! j) @ replicate (count_list xs j) (EVAL_unlock rsrc val)"
proof (induction xs arbitrary: w)
  case Nil
  show ?case by simp
next
  case (Cons x xs)
  let ?w' = "unlock_instance x rsrc val w"
  have len: "j < length (peers ?w')"
    using Cons.prems by (simp add: unlock_instance_world on_peer_frame)
  have "calls (peers ?w' ! j) =
          calls (peers w ! j) @ (if j = x then [EVAL_unlock rsrc val] else [])"
    using Cons.prems by (simp add: unlock_instance_world on_peer_nth server_eval_fields)
  then show ?case
    using Cons.IH [OF len]
    by (simp add: replicate_app_Cons_same)
qed


lemma choices_world:
  "snd (choices k xs w) = w\<lparr>drawn := drawn w + k\<rparr> \<and> length (fst (choices k xs w)) = k"
proof (induction k arbitrary: w)
  case 0
  show ?case by simp
next
  case (Suc k)
  show ?case
    using Suc [of "w\<lparr>drawn := Suc (drawn w)\<rparr>"]
    by (simp add: choice_def case_prod_beta)
qed

lemma get_unique_id_world: "after_token w = w\<lparr>drawn := drawn w + 22\<rparr>"
  by (simp add: after_token_def get_unique_id_def choices_world)

lemma attempt_eq:
  "attempt self rsrc ttl val d w =
     (fst (lock_servers (servers self) rsrc val ttl 0 (w\<lparr>ticks := Suc (ticks w)\<rparr>)),
      ttl - (clock w (Suc (ticks w)) - clock w (ticks w)) - d,
      (snd (lock_servers (servers self) rsrc val ttl 0 (w\<lparr>ticks := Suc (ticks w)\<rparr>)))
        \<lparr>ticks := Suc (Suc (ticks w))\<rparr>)"
  using lock_servers_frame [of "servers self" rsrc val ttl 0 "w\<lparr>ticks := Suc (ticks w)\<rparr>"]
  by (simp add: attempt_def now_ms_def Let_def case_prod_beta)

lemma attempt_validity:
  "fst (snd (attempt self rsrc ttl val d w)) =
     ttl - (clock w (Suc (ticks w)) - clock w (ticks w)) - d"
  by (simp add: attempt_eq)

lemma attempt_frame:
  "clock (snd (snd (attempt self rsrc ttl val d w))) = clock w \<and>
   ticks (snd (snd (attempt self rsrc ttl val d w))) = ticks w + 2 \<and>
   rand (snd (snd (attempt self rsrc ttl val d w))) = rand w \<and>
   drawn (snd (snd (attempt self rsrc ttl val d w))) = drawn w \<and>
   slept (snd (snd (attempt self rsrc ttl val d w))) = slept w \<and>
   length (peers (snd (snd (attempt self rsrc ttl val d w)))) = length (peers w)"
  using lock_servers_frame [of "servers self" rsrc val ttl 0 "w\<lparr>ticks := Suc (ticks w)\<rparr>"]
  by (simp add: attempt_eq)

lemma attempt_calls:
  "j < length (peers w) \<Longrightarrow>
   calls (peers (snd (snd (attempt self rsrc ttl val d w))) ! j) =
     calls (peers w ! j) @ replicate (count_list (servers self) j) (SET rsrc val NX ttl)"
  using lock_servers_calls [of j "w\<lparr>ticks := Suc (ticks w)\<rparr>" "servers self" rsrc val ttl 0]
  by (simp add: attempt_eq)

lemma give_up_frame:
  "clock (give_up self rsrc val w) = clock w \<and>
   ticks (give_up self rsrc val w) = ticks w \<and>
   rand (give_up self rsrc val w) = rand w \<and>
   drawn (give_up self rsrc val w) = drawn w \<and>
   slept (give_up self rsrc val w) = slept w @ [retry_delay self] \<and>
   length (peers (give_up self rsrc val w)) = length (peers w)"
  using unlock_servers_frame [of "servers self" rsrc val w]
  by (simp add: give_up_def sleep_def)

lemma give_up_calls:
  "j < length (peers w) \<Longrightarrow>
   calls (peers (give_up self rsrc val w) ! j) =
     calls (peers w ! j) @ replicate (count_list (servers self) j) (EVAL_unlock rsrc val)"
  using unlock_servers_calls [of j w "servers self" rsrc val]
  by (simp add: give_up_def sleep_def)

lemma before_attempt_frame:
  "clock (before_attempt self rsrc ttl val d k w) = clock w \<and>
   ticks (before_attempt self rsrc ttl val d k w) = ticks w + 2 * k \<and>
   rand (before_attempt self rsrc ttl val d k w) = rand w \<and>
   drawn (before_attempt self rsrc ttl val d k w) = drawn w \<and>
   slept (before_attempt self rsrc ttl val d k w) = slept w @ replicate k (retry_delay self) \<and>
   length (peers (before_attempt self rsrc ttl val d k w)) = length (peers w)"
proof (induction k)
  case 0
  show ?case by simp
next
  case (Suc k)
  let ?b = "before_attempt self rsrc ttl val d k w"
  let ?a = "snd (snd (attempt self rsrc ttl val d ?b))"
  show ?case
    using Suc give_up_frame [of self rsrc val ?a] attempt_frame [of self rsrc ttl val d ?b]
    by (simp add: replicate_append_same)
qed

lemma before_attempt_calls:
  "j < length (peers w) \<Longrightarrow>
   calls (peers (before_attempt self rsrc ttl val d k w) ! j) =
     calls (peers w ! j) @
     concat (replicate k (round_trip rsrc val ttl (count_list (servers self) j)))"
proof (induction k)
  case 0
  show ?case by simp
next
  case (Suc k)
  let ?b = "before_attempt self rsrc ttl val d k w"
  let ?a = "snd (snd (attempt self rsrc ttl val d ?b))"
  have lb: "j < length (peers ?b)"
    using Suc.prems before_attempt_frame [of self rsrc ttl val d k w] by simp
  then have la: "j < length (peers ?a)"
    using attempt_frame [of self rsrc ttl val d ?b] by simp
  have "concat (replicate (Suc k) (round_trip rsrc val ttl (count_list (servers self) j))) =
        concat (replicate k (round_trip rsrc val ttl (count_list (servers self) j))) @
        round_trip rsrc val ttl (count_list (servers self) j)"
    using replicate_append_same [of k "round_trip rsrc val ttl (count_list (servers self) j)"]
      concat_append [of "replicate k (round_trip rsrc val ttl (count_list (servers self) j))"
                        "[round_trip rsrc val ttl (count_list (servers self) j)]"]
    by simp
  then show ?case
    using Suc.IH [OF Suc.prems] give_up_calls [OF la, of self rsrc val]
      attempt_calls [OF lb, of self rsrc ttl val d]
    by (simp add: round_trip_def)
qed

lemma lock_loop_fail_steps:
  assumes "\<forall>j<k. \<not> accepted self (attempt self rsrc ttl val d (before_attempt self rsrc ttl val d j w))"
    and "retry + int k \<le> retry_count self"
  shows "lock_loop self rsrc ttl val d retry w =
         lock_loop self rsrc ttl val d (retry + int k) (before_attempt self rsrc ttl val d k w)"
  using assms
proof (induction k)
  case 0
  show ?case by simp
next
  case (Suc k)
  let ?b = "before_attempt self rsrc ttl val d k w"
  have ih: "lock_loop self rsrc ttl val d retry w = lock_loop self rsrc ttl val d (retry + int k) ?b"
    using Suc by simp
  have nacc: "\<not> accepted self (attempt self rsrc ttl val d ?b)"
    using Suc.prems by simp
  have lt: "retry + int k < retry_count self"
    using Suc.prems by simp
  have "lock_loop self rsrc ttl val d (retry + int k) ?b =
        lock_loop self rsrc ttl val d (retry + int k + 1)
          (give_up self rsrc val (snd (snd (attempt self rsrc ttl val d ?b))))"
    using nacc lt
    by (subst lock_loop.simps) (auto simp: accepted_def split: prod.splits)
  moreover have "retry + int k + 1 = retry + int (Suc k)" by simp
  ultimately show ?case
    using ih by (simp only: before_attempt.simps)
qed

lemma lock_loop_success:
  assumes "\<forall>j<k. \<not> accepted self (attempt self rsrc ttl val d (before_attempt self rsrc ttl val d j w))"
    and "retry + int k < retry_count self"
    and "accepted self (attempt self rsrc ttl val d (before_attempt self rsrc ttl val d k w))"
  shows "lock_loop self rsrc ttl val d retry w =
         (Some \<lparr>validity = fst (snd (attempt self rsrc ttl val d (before_attempt self rsrc ttl val d k w))),
                resource = rsrc, key = val\<rparr>,
          snd (snd (attempt self rsrc ttl val d (before_attempt self rsrc ttl val d k w))))"
proof -
  let ?b = "before_attempt self rsrc ttl val d k w"
  have "lock_loop self rsrc ttl val d retry w = lock_loop self rsrc ttl val d (retry + int k) ?b"
    using assms(1,2) lock_loop_fail_steps [of k self rsrc ttl val d w retry] by simp
  also have "\<dots> = (Some \<lparr>validity = fst (snd (attempt self rsrc ttl val d ?b)),
                resource = rsrc, key = val\<rparr>, snd (snd (attempt self rsrc ttl val d ?b)))"
    using assms(2,3)
    by (subst lock_loop.simps) (auto simp: accepted_def split: prod.splits)
  finally show ?thesis .
qed

lemma lock_loop_exhausted:
  assumes "\<forall>j. retry + int j < retry_count self \<longrightarrow>
             \<not> accepted self (attempt self rsrc ttl val d (before_attempt self rsrc ttl val d j w))"
  shows "lock_loop self rsrc ttl val d retry w =
         (None, before_attempt self rsrc ttl val d (nat (retry_count self - retry)) w)"
proof -
  let ?k = "nat (retry_count self - retry)"
  have "lock_loop self rsrc ttl val d retry w =
        lock_loop self rsrc ttl val d (retry + int ?k) (before_attempt self rsrc ttl val d ?k w)"
  proof (cases "retry \<le> retry_count self")
    case True
    then show ?thesis
      using assms lock_loop_fail_steps [of ?k self rsrc ttl val d w retry] by simp
  next
    case False
    then show ?thesis by simp
  qed
  also have "\<dots> = (None, before_attempt self rsrc ttl val d ?k w)"
    by (subst lock_loop.simps) simp
  finally show ?thesis .
qed


lemma lock_eq:
  "lock self rsrc ttl w =
     lock_loop self rsrc ttl (token w) (drift_of ttl) 0 (after_token w)"
  by (simp add: lock_def token_def after_token_def case_prod_beta)

lemma lock_first_success:
  assumes "first_success self rsrc ttl w k"
  shows "lock self rsrc ttl w =
     (Some \<lparr>validity = fst (snd (nth_attempt self rsrc ttl w k)),
            resource = rsrc, key = token w\<rparr>,
      snd (snd (nth_attempt self rsrc ttl w k)))"
  using assms
    lock_loop_success [of k self rsrc ttl "token w" "drift_of ttl" "after_token w" 0]
  by (simp add: first_success_def nth_attempt_def world_before_def lock_eq)

lemma lock_all_fail:
  assumes "\<forall>k. int k < retry_count self \<longrightarrow> \<not> accepted self (nth_attempt self rsrc ttl w k)"
  shows "lock self rsrc ttl w = (None, world_before self rsrc ttl w (nat (retry_count self)))"
  using assms
    lock_loop_exhausted [of 0 self rsrc ttl "token w" "drift_of ttl" "after_token w"]
  by (simp add: nth_attempt_def world_before_def lock_eq)

lemma first_success_exists:
  assumes "int k < retry_count self" and "accepted self (nth_attempt self rsrc ttl w k)"
  shows "\<exists>m. first_success self rsrc ttl w m"
proof -
  let ?P = "\<lambda>m. int m < retry_count self \<and> accepted self (nth_attempt self rsrc ttl w m)"
  have "?P k" using assms by simp
  then have "?P (LEAST m. ?P m)" by (rule LeastI)
  moreover have "\<forall>j < (LEAST m. ?P m). \<not> ?P j"
    using not_less_Least by blast
  moreover have "\<forall>j < (LEAST m. ?P m). int j < retry_count self"
    using calculation(1) by auto
  ultimately have "first_success self rsrc ttl w (LEAST m. ?P m)"
    unfolding first_success_def by blast
  then show ?thesis ..
qed

lemma lock_cases:
  "(\<exists>k. first_success self rsrc ttl w k) \<or>
   (\<forall>k. int k < retry_count self \<longrightarrow> \<not> accepted self (nth_attempt self rsrc ttl w k))"
  using first_success_exists by blast

lemma first_success_unique:
  "first_success self rsrc ttl w k \<Longrightarrow> first_success self rsrc ttl w m \<Longrightarrow> k = m"
  unfolding first_success_def by (metis nat_neq_iff)

lemma nth_attempt_validity:
  "fst (snd (nth_attempt self rsrc ttl w k)) =
     ttl - (clock w (ticks w + 2 * k + 1) - clock w (ticks w + 2 * k)) - drift_of ttl"
  using before_attempt_frame [of self rsrc ttl "token w" "drift_of ttl" k "after_token w"]
  by (simp add: nth_attempt_def world_before_def attempt_validity get_unique_id_world)


lemma choices_fst:
  "fst (choices k xs w) = map (\<lambda>j. xs ! (rand w (drawn w + j) mod length xs)) [0..<k]"
proof (induction k arbitrary: w)
  case 0
  show ?case by simp
next
  case (Suc k)
  have "[0..<Suc k] = 0 # map Suc [0..<k]"
    using upt_conv_Cons [of 0 "Suc k"] by (simp only: map_Suc_upt)
  then show ?case
    using Suc [of "w\<lparr>drawn := Suc (drawn w)\<rparr>"]
    by (simp add: choice_def case_prod_beta comp_def del: upt_Suc)
qed

lemma token_eq:
  "token w = map (\<lambda>j. CHARACTERS ! (rand w (drawn w + j) mod 62)) [0..<22]"
  by (simp add: token_def get_unique_id_def choices_fst CHARACTERS_def del: upt_Suc)

lemma token_length: "length (token w) = 22"
  by (simp add: token_def get_unique_id_def choices_world)

lemma token_chars: "set (token w) \<subseteq> set CHARACTERS"
proof -
  have len: "length CHARACTERS = 62" by (simp add: CHARACTERS_def)
  have "CHARACTERS ! (n mod 62) \<in> set CHARACTERS" for n
    using len by (intro nth_mem) simp
  then show ?thesis
    by (auto simp: token_eq simp del: upt_Suc)
qed

text \<open>The token of the example worlds, whose random source always answers 0.\<close>

lemma token_zero:
  "rand w = (\<lambda>i. 0) \<Longrightarrow> token w = replicate 22 (CHR ''a'')"
  by (simp add: token_eq CHARACTERS_def map_replicate_const del: upt_Suc)

lemma token_w1: "token w1 = ''aaaaaaaaaaaaaaaaaaaaaa''"
  using token_zero [of w1] by (simp add: w1_def eval_nat_numeral)



subsection \<open>The fault schedules only shrink\<close>

lemma set_tl_subset: "set (tl xs) \<subseteq> set xs"
  by (cases xs) auto

lemma on_peer_faults:
  assumes "\<And>s. set (faults (snd (f s))) \<subseteq> set (faults s)" and "j < length (peers w)"
  shows "set (faults (peers (snd (on_peer i f w)) ! j)) \<subseteq> set (faults (peers w ! j))"
  using assms by (simp add: on_peer_nth)






subsection \<open>What a release does to the stores\<close>

lemma released_refl: "released st st k v"
  by (simp add: released_def)

lemma released_trans:
  "released st st' k v \<Longrightarrow> released st' st'' k v \<Longrightarrow> released st st'' k v"
  by (auto simp: released_def)

lemma unlock_script_released: "released st (snd (unlock_script st k v)) k v"
  by (simp add: released_def unlock_script_def)

lemma unlock_script_clears: "snd (unlock_script st k v) k \<noteq> Some v"
  by (simp add: unlock_script_def)

lemma released_keeps_clear: "released st st' k v \<Longrightarrow> st k \<noteq> Some v \<Longrightarrow> st' k \<noteq> Some v"
  by (auto simp: released_def)

lemma unlock_instance_store:
  "j < length (peers w) \<Longrightarrow>
   store (peers (unlock_instance x rsrc val w) ! j) =
     (if j = x \<and> next_fault (peers w ! j) \<noteq> Refused
      then snd (unlock_script (store (peers w ! j)) rsrc val)
      else store (peers w ! j))"
  by (simp add: unlock_instance_world on_peer_nth server_eval_fields)

lemma unlock_servers_released:
  "j < length (peers w) \<Longrightarrow>
   released (store (peers w ! j)) (store (peers (unlock_servers xs rsrc val w) ! j)) rsrc val"
proof (induction xs arbitrary: w)
  case Nil
  show ?case by (simp add: released_refl)
next
  case (Cons x xs)
  let ?w' = "unlock_instance x rsrc val w"
  have len: "j < length (peers ?w')"
    using Cons.prems by (simp add: unlock_instance_world on_peer_frame)
  have "released (store (peers w ! j)) (store (peers ?w' ! j)) rsrc val"
    using Cons.prems by (simp add: unlock_instance_store unlock_script_released released_refl)
  then show ?case
    using Cons.IH [OF len] by (auto intro: released_trans)
qed

lemma next_fault_not_Refused: "Refused \<notin> set (faults s) \<Longrightarrow> next_fault s \<noteq> Refused"
  by (cases "faults s") (auto simp: next_fault_def)

lemma unlock_servers_clears:
  assumes "j < length (peers w)" and "Refused \<notin> set (faults (peers w ! j))"
    and "j \<in> set xs \<or> store (peers w ! j) rsrc \<noteq> Some val"
  shows "store (peers (unlock_servers xs rsrc val w) ! j) rsrc \<noteq> Some val"
  using assms
proof (induction xs arbitrary: w)
  case Nil
  then show ?case by simp
next
  case (Cons x xs)
  let ?w' = "unlock_instance x rsrc val w"
  have len: "j < length (peers ?w')"
    using Cons.prems by (simp add: unlock_instance_world on_peer_frame)
  have "set (faults (peers ?w' ! j)) \<subseteq> set (faults (peers w ! j))"
    unfolding unlock_instance_world using Cons.prems(1)
    by (intro on_peer_faults) (simp_all add: server_eval_fields set_tl_subset)
  then have nf: "Refused \<notin> set (faults (peers ?w' ! j))"
    using Cons.prems(2) by auto
  have "j \<in> set xs \<or> store (peers ?w' ! j) rsrc \<noteq> Some val"
  proof (cases "j = x")
    case True
    then show ?thesis
      using Cons.prems(1,2)
      by (simp add: unlock_instance_store next_fault_not_Refused unlock_script_clears)
  next
    case False
    then show ?thesis
      using Cons.prems(1,3) by (auto simp: unlock_instance_store)
  qed
  then show ?case
    using Cons.IH [OF len nf] by simp
qed

section \<open>The claims about \<open>lock\<close> and \<open>unlock\<close>\<close>

lemmas eval_defs = attempt_eq lock_instance_def unlock_instance_def on_peer_def server_set_def
  server_eval_def next_fault_def unlock_script_def give_up_def sleep_def Let_def
  nth_attempt_def world_before_def get_unique_id_world accepted_def

lemma world_before_frame:
  "clock (world_before self rsrc ttl w k) = clock w \<and>
   ticks (world_before self rsrc ttl w k) = ticks w + 2 * k \<and>
   rand (world_before self rsrc ttl w k) = rand w \<and>
   drawn (world_before self rsrc ttl w k) = drawn w + 22 \<and>
   slept (world_before self rsrc ttl w k) = slept w @ replicate k (retry_delay self) \<and>
   length (peers (world_before self rsrc ttl w k)) = length (peers w)"
  using before_attempt_frame [of self rsrc ttl "token w" "drift_of ttl" k "after_token w"]
  by (simp add: world_before_def get_unique_id_world)

lemma world_before_calls:
  "j < length (peers w) \<Longrightarrow>
   calls (peers (world_before self rsrc ttl w k) ! j) =
     calls (peers w ! j) @
     concat (replicate k (round_trip rsrc (token w) ttl (count_list (servers self) j)))"
  using before_attempt_calls [of j "after_token w" self rsrc ttl "token w" "drift_of ttl" k]
  by (simp add: world_before_def get_unique_id_world)

lemma nth_attempt_calls:
  "j < length (peers w) \<Longrightarrow>
   calls (peers (snd (snd (nth_attempt self rsrc ttl w k))) ! j) =
     calls (peers (world_before self rsrc ttl w k) ! j) @
     replicate (count_list (servers self) j) (SET rsrc (token w) NX ttl)"
  using attempt_calls [of j "world_before self rsrc ttl w k" self rsrc ttl "token w" "drift_of ttl"]
    world_before_frame [of self rsrc ttl w k]
  by (simp add: nth_attempt_def)

lemma nth_attempt_frame:
  "clock (snd (snd (nth_attempt self rsrc ttl w k))) = clock w \<and>
   ticks (snd (snd (nth_attempt self rsrc ttl w k))) = ticks w + 2 * k + 2 \<and>
   rand (snd (snd (nth_attempt self rsrc ttl w k))) = rand w \<and>
   drawn (snd (snd (nth_attempt self rsrc ttl w k))) = drawn w + 22 \<and>
   slept (snd (snd (nth_attempt self rsrc ttl w k))) = slept w @ replicate k (retry_delay self) \<and>
   length (peers (snd (snd (nth_attempt self rsrc ttl w k)))) = length (peers w)"
  using attempt_frame [of self rsrc ttl "token w" "drift_of ttl" "world_before self rsrc ttl w k"]
    world_before_frame [of self rsrc ttl w k]
  by (simp add: nth_attempt_def)


lemma drift_10000: "drift_of 10000 = 102"
  by (simp add: drift_of_eq)







lemma round_trip_tokens:
  "set (round_trip rsrc val ttl c) \<subseteq> {SET rsrc val NX ttl, EVAL_unlock rsrc val}"
  by (auto simp: round_trip_def)

lemma lock_world_cases:
  "(\<exists>k. first_success self rsrc ttl w k \<and>
        snd (lock self rsrc ttl w) = snd (snd (nth_attempt self rsrc ttl w k))) \<or>
   (fst (lock self rsrc ttl w) = None \<and>
    snd (lock self rsrc ttl w) = world_before self rsrc ttl w (nat (retry_count self)))"
proof (cases "\<exists>k. first_success self rsrc ttl w k")
  case True
  then obtain k where fs: "first_success self rsrc ttl w k" ..
  then show ?thesis
    using lock_first_success [OF fs] by auto
next
  case False
  then have "\<forall>k. int k < retry_count self \<longrightarrow> \<not> accepted self (nth_attempt self rsrc ttl w k)"
    using lock_cases [of self rsrc ttl w] by blast
  then show ?thesis
    using lock_all_fail [of self rsrc ttl w] by simp
qed

text \<open>
  C3. The claim: every attempt of one call uses a freshly generated token. The code calls
  \<^verbatim>\<open>get_unique_id\<close> once, before the loop, and every attempt of the call sends that one
  token. In the world \<open>w1\<close> the first attempt fails and the second succeeds: the only
  server is sent the same value by both.
\<close>

theorem lock_counterexample_token:
  "token w1 = ''aaaaaaaaaaaaaaaaaaaaaa'' \<and>
   calls (peers (snd (lock m1 ''res'' 10000 w1)) ! 0) =
     [SET ''res'' (token w1) NX 10000, EVAL_unlock ''res'' (token w1),
      SET ''res'' (token w1) NX 10000] \<and>
   \<not> distinct (set_values (calls (peers (snd (lock m1 ''res'' 10000 w1)) ! 0)))"
proof -
  have fs: "first_success m1 ''res'' 10000 w1 1"
    by (simp add: first_success_def eval_defs w1_def m1_def drift_10000)
  have "snd (lock m1 ''res'' 10000 w1) = snd (snd (nth_attempt m1 ''res'' 10000 w1 1))"
    using lock_first_success [OF fs] by simp
  then have "calls (peers (snd (lock m1 ''res'' 10000 w1)) ! 0) =
     [SET ''res'' (token w1) NX 10000, EVAL_unlock ''res'' (token w1),
      SET ''res'' (token w1) NX 10000]"
    using nth_attempt_calls [of 0 w1 m1 "''res''" 10000 1]
      world_before_calls [of 0 w1 m1 "''res''" 10000 1]
    by (simp add: w1_def m1_def round_trip_def)
  then show ?thesis
    using token_w1 by simp
qed

text \<open>
  C3, as the code has it. One call of \<open>lock\<close> generates one token, of 22 characters of
  \<^verbatim>\<open>CHARACTERS\<close>, and every command it sends to a server, in every attempt and in every
  release, carries this token, as does the handle it returns.
\<close>

theorem lock_single_token:
  "drawn (snd (lock self rsrc ttl w)) = drawn w + 22 \<and>
   length (token w) = 22 \<and> set (token w) \<subseteq> set CHARACTERS \<and>
   (\<forall>l. fst (lock self rsrc ttl w) = Some l \<longrightarrow> key l = token w) \<and>
   (\<forall>i<length (peers w). \<exists>cs.
      calls (peers (snd (lock self rsrc ttl w)) ! i) = calls (peers w ! i) @ cs \<and>
      set cs \<subseteq> {SET rsrc (token w) NX ttl, EVAL_unlock rsrc (token w)})"
proof (intro conjI allI impI)
  show "drawn (snd (lock self rsrc ttl w)) = drawn w + 22"
    using lock_world_cases [of self rsrc ttl w] nth_attempt_frame [of self rsrc ttl w]
      world_before_frame [of self rsrc ttl w] by auto
  show "length (token w) = 22" by (rule token_length)
  show "set (token w) \<subseteq> set CHARACTERS" by (rule token_chars)
next
  fix l assume some: "fst (lock self rsrc ttl w) = Some l"
  then obtain k where "first_success self rsrc ttl w k"
    using lock_world_cases [of self rsrc ttl w] by auto
  then show "key l = token w"
    using some lock_first_success [of self rsrc ttl w k] by auto
next
  fix i assume i: "i < length (peers w)"
  let ?c = "count_list (servers self) i"
  let ?rt = "round_trip rsrc (token w) ttl ?c"
  from lock_world_cases [of self rsrc ttl w]
  show "\<exists>cs. calls (peers (snd (lock self rsrc ttl w)) ! i) = calls (peers w ! i) @ cs \<and>
      set cs \<subseteq> {SET rsrc (token w) NX ttl, EVAL_unlock rsrc (token w)}"
  proof
    assume "\<exists>k. first_success self rsrc ttl w k \<and>
        snd (lock self rsrc ttl w) = snd (snd (nth_attempt self rsrc ttl w k))"
    then obtain k where
      eq: "snd (lock self rsrc ttl w) = snd (snd (nth_attempt self rsrc ttl w k))" by blast
    have "calls (peers (snd (lock self rsrc ttl w)) ! i) =
            calls (peers w ! i) @
            (concat (replicate k ?rt) @ replicate ?c (SET rsrc (token w) NX ttl))"
      using i by (simp add: eq nth_attempt_calls world_before_calls)
    moreover have "set (concat (replicate k ?rt) @ replicate ?c (SET rsrc (token w) NX ttl))
            \<subseteq> {SET rsrc (token w) NX ttl, EVAL_unlock rsrc (token w)}"
      using round_trip_tokens [of rsrc "token w" ttl ?c] by auto
    ultimately show ?thesis by blast
  next
    assume "fst (lock self rsrc ttl w) = None \<and>
      snd (lock self rsrc ttl w) = world_before self rsrc ttl w (nat (retry_count self))"
    then have "calls (peers (snd (lock self rsrc ttl w)) ! i) =
            calls (peers w ! i) @ concat (replicate (nat (retry_count self)) ?rt)"
      using i by (simp add: world_before_calls)
    moreover have "set (concat (replicate (nat (retry_count self)) ?rt))
            \<subseteq> {SET rsrc (token w) NX ttl, EVAL_unlock rsrc (token w)}"
      using round_trip_tokens [of rsrc "token w" ttl ?c] by auto
    ultimately show ?thesis by blast
  qed
qed

theorem lock_single_token_witness:
  "fst (lock m1 ''res'' 10000 w1) =
     Some \<lparr>validity = 9848, resource = ''res'', key = token w1\<rparr> \<and>
   key \<lparr>validity = 9848, resource = ''res'', key = token w1\<rparr> = token w1 \<and>
   0 < length (peers w1) \<and>
   (\<exists>cs. calls (peers (snd (lock m1 ''res'' 10000 w1)) ! 0) = calls (peers w1 ! 0) @ cs \<and>
         set cs \<subseteq> {SET ''res'' (token w1) NX 10000, EVAL_unlock ''res'' (token w1)})"
proof -
  have fs: "first_success m1 ''res'' 10000 w1 1"
    by (simp add: first_success_def eval_defs w1_def m1_def drift_10000)
  have v: "fst (snd (nth_attempt m1 ''res'' 10000 w1 1)) = 9848"
    by (simp add: nth_attempt_validity w1_def drift_10000)
  have some: "fst (lock m1 ''res'' 10000 w1) =
     Some \<lparr>validity = 9848, resource = ''res'', key = token w1\<rparr>"
    using lock_first_success [OF fs] v by simp
  have len: "0 < length (peers w1)"
    by (simp add: w1_def)
  show ?thesis
    using lock_single_token [of m1 "''res''" 10000 w1] some len by simp
qed








text \<open>
  C8. \<open>unlock\<close> sends the evaluation of \<^verbatim>\<open>unlock_script\<close> for the resource and the token of
  the handle to every server of the manager, once for each time the manager holds it. On
  each server the store changes at most in that the resource, if it held the token of the
  handle, is deleted; a server that refuses no request no longer holds the token under the
  resource. \<open>unlock\<close> has no error result: whatever a server does with the request
  (\<open>Refused\<close>, \<open>ReplyLost\<close>), \<open>unlock_instance\<close> returns the world and the loop goes on.
\<close>

theorem unlock_best_effort:
  "length (peers (unlock self l w)) = length (peers w) \<and>
   (\<forall>i<length (peers w).
      calls (peers (unlock self l w) ! i) =
        calls (peers w ! i) @
        replicate (count_list (servers self) i) (EVAL_unlock (resource l) (key l)) \<and>
      released (store (peers w ! i)) (store (peers (unlock self l w) ! i)) (resource l) (key l) \<and>
      (i \<in> set (servers self) \<and> Refused \<notin> set (faults (peers w ! i)) \<longrightarrow>
         store (peers (unlock self l w) ! i) (resource l) \<noteq> Some (key l)))"
proof (intro conjI allI impI)
  show "length (peers (unlock self l w)) = length (peers w)"
    using unlock_servers_frame [of "servers self" "resource l" "key l" w]
    by (simp add: unlock_def)
next
  fix i assume i: "i < length (peers w)"
  show "calls (peers (unlock self l w) ! i) =
        calls (peers w ! i) @
        replicate (count_list (servers self) i) (EVAL_unlock (resource l) (key l))"
    using i by (simp add: unlock_def unlock_servers_calls)
  show "released (store (peers w ! i)) (store (peers (unlock self l w) ! i)) (resource l) (key l)"
    using i by (simp add: unlock_def unlock_servers_released)
  assume "i \<in> set (servers self) \<and> Refused \<notin> set (faults (peers w ! i))"
  then show "store (peers (unlock self l w) ! i) (resource l) \<noteq> Some (key l)"
    using i unlock_servers_clears [of i w "servers self" "resource l" "key l"]
    by (simp add: unlock_def)
qed

theorem unlock_best_effort_witness:
  "(0::nat) < length (peers w8) \<and> 0 \<in> set (servers m8) \<and>
   Refused \<notin> set (faults (peers w8 ! 0)) \<and>
   store (peers (unlock m8 l8 w8) ! 0) ''res'' \<noteq> Some ''tok'' \<and>
   calls (peers (unlock m8 l8 w8) ! 0) = [EVAL_unlock ''res'' ''tok'']"
proof -
  have pre: "(0::nat) < length (peers w8)" "0 \<in> set (servers m8)"
    "Refused \<notin> set (faults (peers w8 ! 0))"
    "resource l8 = ''res''" "key l8 = ''tok''" "count_list (servers m8) 0 = Suc 0"
    "calls (peers w8 ! 0) = []"
    by (simp_all add: w8_def m8_def l8_def)
  note t = unlock_best_effort [of m8 l8 w8]
  from t pre(1-3) have "store (peers (unlock m8 l8 w8) ! 0) (resource l8) \<noteq> Some (key l8)"
    by blast
  then have st: "store (peers (unlock m8 l8 w8) ! 0) ''res'' \<noteq> Some ''tok''"
    by (simp add: pre)
  from t pre(1) have "calls (peers (unlock m8 l8 w8) ! 0) =
        calls (peers w8 ! 0) @
        replicate (count_list (servers m8) 0) (EVAL_unlock (resource l8) (key l8))"
    by blast
  then have cs: "calls (peers (unlock m8 l8 w8) ! 0) = [EVAL_unlock ''res'' ''tok'']"
    by (simp add: pre)
  show ?thesis
    using pre(1-3) st cs by blast
qed

text \<open>
  The release in the world \<open>w8\<close>: the key is deleted where it holds the token, left where it
  holds another value, and left where the request is refused.
\<close>

lemma unlock_example:
  "map (\<lambda>s. store s ''res'') (peers (unlock m8 l8 w8)) = [None, Some ''other'', Some ''tok'']"
  by (simp add: unlock_def eval_defs w8_def m8_def l8_def)

section \<open>The claims about the renewal threads\<close>

lemmas ext_defs = extend_expiry_loop_step_def stop_expiry_extender_step_def
  start_expiry_extender_def set_pc_def is_alive_def on_peer_def server_set_def next_fault_def
  Let_def







text \<open>
  What \<^verbatim>\<open>stop_expiry_extender\<close> does by itself. With no thread in \<^verbatim>\<open>self.expiry_extender\<close>,
  or a thread that has returned, its three steps set the event, skip the join and clear
  the event; while the thread of \<^verbatim>\<open>self.expiry_extender\<close> is alive the caller stays in the
  join.
\<close>

lemma stop_nothing_running:
  assumes "caller x = Set_event"
    and "expiry_extender x = None \<or> (\<exists>t. expiry_extender x = Some t \<and> \<not> is_alive x t)"
  shows "run [Caller, Caller, Caller] x = x\<lparr>event := False, caller := Returned\<rparr>"
  using assms by (auto simp: stop_expiry_extender_step_def is_alive_def)

lemma stop_joins_last_started:
  "caller x = Join \<Longrightarrow> expiry_extender x = Some t \<Longrightarrow> is_alive x t \<Longrightarrow>
     stop_expiry_extender_step x = x"
  by (simp add: stop_expiry_extender_step_def)

lemma start_overwrites:
  "expiry_extender (start_expiry_extender s2 r2 v2 ttl2 (start_expiry_extender s1 r1 v1 ttl1 x)) =
     Some (Suc (length (threads x)))"
  by (simp add: start_expiry_extender_def)

text \<open>
  C10. The claim: the stop operation waits for every running renewal loop to end before
  it returns, and after the stop is signalled no renewal is sent. The code for a manager
  with two renewal threads: \<^verbatim>\<open>self.expiry_extender\<close> holds the thread started last, the
  only one that is joined. At the signal no renewal has been sent. Thread 1 leaves its
  wait and sends one; the caller returns with the event cleared while thread 0 is alive,
  and thread 0 goes on renewing.
\<close>

theorem stop_leaves_thread_running:
  "event (run until_signal x0) \<and>
   map calls (peers (env (run until_signal x0))) = [[], []] \<and>
   caller (run until_stopped x0) = Returned \<and>
   \<not> event (run until_stopped x0) \<and>
   expiry_extender (run until_stopped x0) = Some 1 \<and>
   map th_pc (threads (run until_stopped x0)) = [Renewing, Finished] \<and>
   map calls (peers (env (run until_stopped x0))) = [[], [SET ''res'' ''tok'' XX 20000]] \<and>
   map th_pc (threads (run (until_stopped @ afterwards) x0)) = [Check, Finished] \<and>
   map calls (peers (env (run (until_stopped @ afterwards) x0))) =
     [[SET ''res'' ''tok'' XX 20000, SET ''res'' ''tok'' XX 20000],
      [SET ''res'' ''tok'' XX 20000]]"
  by (simp add: until_signal_def until_stopped_def afterwards_def x0_def held_def ext_defs)

end
